theory Spec2Isabelle
  imports Complex_Main "HOL-Library.Multiset"
begin

section \<open>Segmenter: \<open>chunk.py\<close>\<close>

text \<open>
  Python strings are modelled as \<open>string\<close>, Python integers as \<open>int\<close>. The budget
  \<open>chunk_size\<close> comes from \<open>argparse\<close> with \<open>type=int\<close>, so it may be zero or negative;
  positions are therefore integers too, and the index conventions of Python's slices and
  of \<open>str.rfind\<close> (negative indices count from the end, everything is clamped to the
  string) are written out.
\<close>

definition newline :: char where
  "newline = CHR 0x0A"

definition period :: char where
  "period = CHR ''.''"

definition comma :: char where
  "comma = CHR '',''"

definition space :: char where
  "space = CHR '' ''"

text \<open>
  \<open>int(chunk_size * 0.5)\<close>: the product with the float \<open>0.5\<close> is exact as long as
  \<open>chunk_size\<close> converts to a float exactly (magnitude below \<open>2^53\<close>; the expression
  is only reached with \<open>chunk_size < len(text)\<close>), and \<open>int\<close> truncates towards zero.
\<close>

definition int_half :: "int \<Rightarrow> int" where
  "int_half n = (if 0 \<le> n then n div 2 else - ((- n) div 2))"

text \<open>Index adjustment of a slice bound against a sequence of length \<open>n\<close>.\<close>

definition slice_index :: "int \<Rightarrow> int \<Rightarrow> int" where
  "slice_index n i = (if i < 0 then max 0 (i + n) else min i n)"

text \<open>\<open>s[a:b]\<close> and \<open>s[a:]\<close>.\<close>

definition slice :: "'a list \<Rightarrow> int \<Rightarrow> int \<Rightarrow> 'a list" where
  "slice s a b =
     (let n = int (length s); a' = slice_index n a; b' = slice_index n b
      in take (nat (b' - a')) (drop (nat a') s))"

definition slice_from :: "'a list \<Rightarrow> int \<Rightarrow> 'a list" where
  "slice_from s a = drop (nat (slice_index (int (length s)) a)) s"

text \<open>
  \<open>s.rfind(c, start, stop)\<close> for a single character \<open>c\<close>: the highest index
  \<open>p\<close> with \<open>start \<le> p < stop\<close> (after index adjustment) and \<open>s[p] = c\<close>, or \<open>-1\<close>.
  \<open>rscan s c lo k\<close> looks at the positions \<open>lo + k - 1\<close> down to \<open>lo\<close>.
\<close>

fun rscan :: "string \<Rightarrow> char \<Rightarrow> nat \<Rightarrow> nat \<Rightarrow> int" where
  "rscan s c lo 0 = - 1"
| "rscan s c lo (Suc k) = (if s ! (lo + k) = c then int (lo + k) else rscan s c lo k)"

definition rfind :: "string \<Rightarrow> char \<Rightarrow> int \<Rightarrow> int \<Rightarrow> int" where
  "rfind s c start stop =
     (let n = int (length s);
          e = (if stop > n then n else if stop < 0 then max 0 (stop + n) else stop);
          b = (if start < 0 then max 0 (start + n) else start)
      in if e \<le> b then - 1 else rscan s c (nat b) (nat (e - b)))"

text \<open>
  The body of one loop iteration of \<open>chunk_text\<close> that chooses the break
  (\<open>best_break\<close>; the source's \<open>end\<close> is \<open>stop\<close> here).
\<close>

definition best_break :: "string \<Rightarrow> int \<Rightarrow> int \<Rightarrow> int" where
  "best_break str chunk_size start =
     (let stop = start + chunk_size;
          search_start = max start (stop - int_half chunk_size);
          newline_pos = rfind str newline search_start stop
      in if newline_pos \<noteq> - 1 then newline_pos + 1
         else let period_pos = rfind str period search_start stop
           in if period_pos \<noteq> - 1 then period_pos + 1
              else let comma_pos = rfind str comma search_start stop
                in if comma_pos \<noteq> - 1 then comma_pos + 1
                   else let space_pos = rfind str space search_start stop
                     in if space_pos \<noteq> - 1 then space_pos + 1
                        else stop)"

text \<open>
  The \<open>while\<close> loop of \<open>chunk_text\<close>. For a non-positive budget it need not end
  (with budget \<open>0\<close> the start position never moves), so it is a partial function: \<open>None\<close>
  stands for a loop that runs forever.
\<close>

partial_function (option) chunk_loop ::
  "string \<Rightarrow> int \<Rightarrow> int \<Rightarrow> string list \<Rightarrow> string list option" where
  "chunk_loop str chunk_size start chunks =
     (if start < int (length str) then
        (if start + chunk_size \<ge> int (length str)
         then Some (chunks @ [slice_from str start])
         else chunk_loop str chunk_size (best_break str chunk_size start)
                (chunks @ [slice str start (best_break str chunk_size start)]))
      else Some chunks)"

declare chunk_loop.simps [code]

definition chunk_text :: "string \<Rightarrow> int \<Rightarrow> string list option" where
  "chunk_text str chunk_size = chunk_loop str chunk_size 0 []"

subsection \<open>The cut point in the words of the specification\<close>

text \<open>
  The search window \<open>[max(start, ideal - budget * 0.5), ideal)\<close> with
  \<open>ideal = start + budget\<close>, read over the reals, the occurrences of a character in it,
  and the cut: immediately after the rightmost occurrence of the first boundary class, in
  the order newline, period, comma, space, that occurs in the window at all, and at
  \<open>ideal\<close> when none does.
\<close>

definition boundaries :: "char list" where
  "boundaries = [newline, period, comma, space]"

definition in_window :: "int \<Rightarrow> int \<Rightarrow> int \<Rightarrow> bool" where
  "in_window start budget p \<longleftrightarrow>
     max (real_of_int start) (real_of_int (start + budget) - real_of_int budget * 0.5)
       \<le> real_of_int p \<and> p < start + budget"

definition occurrences :: "string \<Rightarrow> char \<Rightarrow> int \<Rightarrow> int \<Rightarrow> int set" where
  "occurrences str c start budget =
     {p \<in> {start..<start + budget}. in_window start budget p \<and> str ! nat p = c}"

definition spec_cut :: "string \<Rightarrow> int \<Rightarrow> int \<Rightarrow> int" where
  "spec_cut str budget start =
     (case find (\<lambda>c. occurrences str c start budget \<noteq> {}) boundaries of
        Some c \<Rightarrow> Max (occurrences str c start budget) + 1
      | None \<Rightarrow> start + budget)"

text \<open>
  The iterations behind a list of segments produced from position \<open>start\<close>: every
  segment but the last is the slice from the end of its predecessors to the break chosen
  there, and at that point more than a budget of text remained.
\<close>

definition loop_steps :: "string \<Rightarrow> int \<Rightarrow> int \<Rightarrow> string list \<Rightarrow> bool" where
  "loop_steps str b start segs \<longleftrightarrow>
     (\<forall>i. Suc i < length segs \<longrightarrow>
        (let st = start + int (length (concat (take i segs)))
         in 0 \<le> st \<and> st + b < int (length str) \<and>
            segs ! i = slice str st (best_break str b st)))"

definition crafted :: string where
  "crafted = ''aaaaa'' @ [newline] @ ''. bbbbbbbb''"

section \<open>The job artifact\<close>

text \<open>
  One entry of \<open>data['chunks']\<close>. The status is the JSON string itself: the code only
  ever compares it with \<open>'done'\<close> and \<open>'error'\<close>. \<open>None\<close> in \<open>c_result\<close> and
  \<open>c_error\<close> is JSON \<open>null\<close> (for \<open>c_error\<close> also an absent key:
  \<open>chunk.py\<close> writes no \<open>error\<close> key).
\<close>

record chunk =
  c_index :: int
  c_text :: string
  c_status :: string
  c_result :: "string option"
  c_error :: "string option"

record meta =
  m_book_id :: string
  m_chunk_size :: int
  m_total_chunks :: int

record job =
  j_meta :: meta
  j_chunks :: "chunk list"

text \<open>The JSON structure built by \<open>create_chunked_file\<close> from the chunks.\<close>

definition make_data :: "string \<Rightarrow> int \<Rightarrow> string list \<Rightarrow> job" where
  "make_data base_name chunk_size chunks =
     \<lparr>j_meta = \<lparr>m_book_id = base_name, m_chunk_size = chunk_size,
                m_total_chunks = int (length chunks)\<rparr>,
      j_chunks = map (\<lambda>(i, c). \<lparr>c_index = int i, c_text = c, c_status = ''pending'',
                                 c_result = None, c_error = None\<rparr>)
                   (enumerate 0 chunks)\<rparr>"

text \<open>The JSON files on disk, by path, already parsed.\<close>

type_synonym files = "string \<rightharpoonup> job"

datatype py_error = FileNotFoundError

text \<open>The lines the programs print, without their layout.\<close>

datatype message =
    ErrNoKey
  | ErrNotFound string
  | Found nat nat nat
  | AllProcessed
  | Summary nat nat nat "nat list"
  | Statistics nat nat nat nat
  | WarnErrors nat "int list"
  | WarnPending nat "int list"
  | NothingToRebuild
  | Rebuilt nat
  | Incomplete nat

text \<open>Truth value of an optional string, as in \<open>if result:\<close>.\<close>

definition truthy :: "string option \<Rightarrow> bool" where
  "truthy r = (case r of None \<Rightarrow> False | Some s \<Rightarrow> s \<noteq> [])"

section \<open>Pipeline runner: \<open>process.py\<close>\<close>

text \<open>
  \<open>ProgressTracker\<close>, without the clock (\<open>start_time\<close>, speed and ETA are
  presentation).
\<close>

record tracker =
  t_total_chunks :: nat
  t_processed :: nat
  t_success :: nat
  t_failed :: nat
  t_failed_chunks :: "nat list"

definition tracker_init :: "nat \<Rightarrow> tracker" where
  "tracker_init total_chunks =
     \<lparr>t_total_chunks = total_chunks, t_processed = 0, t_success = 0, t_failed = 0,
      t_failed_chunks = []\<rparr>"

definition update :: "tracker \<Rightarrow> bool \<Rightarrow> nat option \<Rightarrow> tracker" where
  "update t success chunk_index =
     (let t1 = t\<lparr>t_processed := t_processed t + 1\<rparr>
      in if success then t1\<lparr>t_success := t_success t1 + 1\<rparr>
         else let t2 = t1\<lparr>t_failed := t_failed t1 + 1\<rparr>
              in case chunk_index of
                   Some i \<Rightarrow> t2\<lparr>t_failed_chunks := t_failed_chunks t2 @ [i]\<rparr>
                 | None \<Rightarrow> t2)"

definition get_summary :: "tracker \<Rightarrow> message" where
  "get_summary t = Summary (t_total_chunks t) (t_success t) (t_failed t) (t_failed_chunks t)"

text \<open>
  The text-generation service: the answer to the \<open>n\<close>-th request of a run for a model
  and a prompt is either an exception, with its text (\<open>Inl\<close>), or the content of the
  first choice, which the API allows to be null (\<open>Inr None\<close>).
\<close>

type_synonym client = "nat \<Rightarrow> string \<Rightarrow> string \<Rightarrow> string + string option"

text \<open>
  A request that reaches the service: its number in the run, the model and the prompt.
  Calling the service is an effect, so \<open>process_chunk\<close> returns, next to its pair,
  the requests it has made: the one call of \<open>client.chat.completions.create\<close>.
\<close>

type_synonym request = "nat \<times> string \<times> string"

text \<open>\<open>prompt_template.replace("{text}", new)\<close>: every occurrence, left to right.\<close>

fun replace_text :: "string \<Rightarrow> string \<Rightarrow> string" where
  "replace_text new [] = []"
| "replace_text new (c # cs) =
     (if take 6 (c # cs) = ''{text}'' then new @ replace_text new (drop 5 cs)
      else c # replace_text new cs)"

definition process_chunk ::
  "client \<Rightarrow> nat \<Rightarrow> string \<Rightarrow> string \<Rightarrow> string \<Rightarrow>
     (string option \<times> string option) \<times> request list" where
  "process_chunk client n chunk_txt prompt_template model =
     (let prompt = replace_text chunk_txt prompt_template
      in (case client n model prompt of
            Inr content \<Rightarrow> (content, None)
          | Inl e \<Rightarrow> (None, Some e),
          [(n, model, prompt)]))"

text \<open>
  What a run does to the world, in order: a segment is handed to \<open>process_chunk\<close>,
  the whole job is written to its file. The requests that reach the service are kept
  next to that log, in the order they are made.
\<close>

datatype event = Submit nat string | Save string job

record run =
  r_data :: job
  r_tracker :: tracker
  r_files :: files
  r_log :: "event list"
  r_calls :: "request list"

text \<open>The scan over \<open>enumerate(data['chunks'])\<close>.\<close>

fun scan :: "chunk list \<Rightarrow> nat \<Rightarrow> nat list \<Rightarrow> nat \<Rightarrow> nat list \<times> nat" where
  "scan [] i pending_chunks done_count = (pending_chunks, done_count)"
| "scan (c # cs) i pending_chunks done_count =
     (if c_status c = ''done'' then scan cs (Suc i) pending_chunks (done_count + 1)
      else scan cs (Suc i) (pending_chunks @ [i]) done_count)"

text \<open>One iteration of the processing loop, for the \<open>idx\<close>-th pending chunk.\<close>

definition process_one ::
  "client \<Rightarrow> string \<Rightarrow> string \<Rightarrow> string \<Rightarrow> nat \<Rightarrow> nat \<Rightarrow> run \<Rightarrow> run" where
  "process_one client json_file prompt_template model idx chunk_index st =
     (let data = r_data st;
          c = j_chunks data ! chunk_index;
          ((result, error), requests) =
             process_chunk client idx (c_text c) prompt_template model;
          c' = (if truthy result
                then c\<lparr>c_status := ''done'', c_result := result, c_error := None\<rparr>
                else c\<lparr>c_status := ''error'', c_error := error\<rparr>);
          tracker' = (if truthy result then update (r_tracker st) True None
                      else update (r_tracker st) False (Some chunk_index));
          data' = data\<lparr>j_chunks := (j_chunks data)[chunk_index := c']\<rparr>
      in \<lparr>r_data = data', r_tracker = tracker',
          r_files = (r_files st)(json_file \<mapsto> data'),
          r_log = r_log st @ [Submit chunk_index (c_text c), Save json_file data'],
          r_calls = r_calls st @ requests\<rparr>)"

fun process_loop ::
  "client \<Rightarrow> string \<Rightarrow> string \<Rightarrow> string \<Rightarrow> nat \<Rightarrow> nat list \<Rightarrow> run \<Rightarrow> run" where
  "process_loop client json_file prompt_template model idx [] st = st"
| "process_loop client json_file prompt_template model idx (chunk_index # rest) st =
     process_loop client json_file prompt_template model (Suc idx) rest
       (process_one client json_file prompt_template model idx chunk_index st)"

record env =
  openai_key :: "string option"
  model_name :: "string option"

record outcome =
  exit_code :: int
  out_files :: files
  out_log :: "event list"
  out_calls :: "request list"
  out_msgs :: "message list"

definition process_chunks ::
  "env \<Rightarrow> client \<Rightarrow> files \<Rightarrow> string \<Rightarrow> string \<Rightarrow> string \<Rightarrow> py_error + outcome" where
  "process_chunks ev client fs json_file prompt_template model =
     (if \<not> truthy (openai_key ev)
      then Inr \<lparr>exit_code = 1, out_files = fs, out_log = [], out_calls = [],
                out_msgs = [ErrNoKey]\<rparr>
      else case fs json_file of
        None \<Rightarrow> Inl FileNotFoundError
      | Some data \<Rightarrow>
          (let (pending_chunks, done_count) = scan (j_chunks data) 0 [] 0;
               total_chunks = length (j_chunks data);
               found = Found total_chunks (length pending_chunks) done_count
           in if pending_chunks = []
              then Inr \<lparr>exit_code = 0, out_files = fs, out_log = [], out_calls = [],
                        out_msgs = [found, AllProcessed]\<rparr>
              else let tr = (tracker_init total_chunks)\<lparr>t_success := done_count\<rparr>;
                       st = process_loop client json_file prompt_template model 0 pending_chunks
                              \<lparr>r_data = data, r_tracker = tr, r_files = fs, r_log = [],
                               r_calls = []\<rparr>
                   in Inr \<lparr>exit_code = 0, out_files = r_files st, out_log = r_log st,
                           out_calls = r_calls st,
                           out_msgs = [found, get_summary (r_tracker st)]\<rparr>))"

text \<open>\<open>main\<close> of \<open>process.py\<close>, after argument parsing.\<close>

definition process_main ::
  "env \<Rightarrow> client \<Rightarrow> files \<Rightarrow> string \<Rightarrow> string \<Rightarrow> string \<Rightarrow> py_error + outcome" where
  "process_main ev client fs json_file prompt model_arg =
     (let model = (if truthy (model_name ev) then the (model_name ev) else model_arg)
      in if fs json_file = None
         then Inr \<lparr>exit_code = 1, out_files = fs, out_log = [], out_calls = [],
                   out_msgs = [ErrNotFound json_file]\<rparr>
         else process_chunks ev client fs json_file prompt model)"

section \<open>Rebuild: \<open>rebuild.py\<close>\<close>

text \<open>The statistics loop: the done chunks, the indices of the others.\<close>

fun collect ::
  "chunk list \<Rightarrow> chunk list \<Rightarrow> int list \<Rightarrow> int list \<Rightarrow> chunk list \<times> int list \<times> int list" where
  "collect [] done_chunks error_chunks pending_chunks =
     (done_chunks, error_chunks, pending_chunks)"
| "collect (c # cs) done_chunks error_chunks pending_chunks =
     (if c_status c = ''done'' then collect cs (done_chunks @ [c]) error_chunks pending_chunks
      else if c_status c = ''error''
        then collect cs done_chunks (error_chunks @ [c_index c]) pending_chunks
      else collect cs done_chunks error_chunks (pending_chunks @ [c_index c]))"

text \<open>The loop that appends the results, skipping a result that is not truthy.\<close>

fun rebuild_text :: "chunk list \<Rightarrow> string \<Rightarrow> string" where
  "rebuild_text [] rebuilt = rebuilt"
| "rebuild_text (c # cs) rebuilt =
     (case c_result c of
        Some r \<Rightarrow> (if r \<noteq> [] then rebuild_text cs (rebuilt @ r) else rebuild_text cs rebuilt)
      | None \<Rightarrow> rebuild_text cs rebuilt)"

text \<open>
  The result of a rebuild: the exit status, the text written to the output file if one
  was written, and the printed lines. Python's \<open>list.sort\<close> is stable, as
  \<open>sort_key\<close> is. The name of the output file is left out.
\<close>

record rebuilt =
  rb_exit :: int
  rb_written :: "string option"
  rb_msgs :: "message list"

definition rebuild_chunks :: "files \<Rightarrow> string \<Rightarrow> py_error + rebuilt" where
  "rebuild_chunks fs json_file =
     (case fs json_file of
        None \<Rightarrow> Inl FileNotFoundError
      | Some data \<Rightarrow>
          (let total_chunks = length (j_chunks data);
               (done_chunks, error_chunks, pending_chunks) = collect (j_chunks data) [] [] [];
               stats = [Statistics total_chunks (length done_chunks) (length error_chunks)
                          (length pending_chunks)]
                  @ (if error_chunks \<noteq> [] then [WarnErrors (length error_chunks) error_chunks]
                     else [])
                  @ (if pending_chunks \<noteq> []
                     then [WarnPending (length pending_chunks) pending_chunks] else [])
           in if done_chunks = []
              then Inr \<lparr>rb_exit = 1, rb_written = None, rb_msgs = stats @ [NothingToRebuild]\<rparr>
              else let sorted_chunks = sort_key c_index done_chunks;
                       rebuilt_text = rebuild_text sorted_chunks []
                   in Inr \<lparr>rb_exit = 0, rb_written = Some rebuilt_text,
                           rb_msgs = stats @ [Rebuilt (length done_chunks)]
                             @ (if error_chunks \<noteq> [] \<or> pending_chunks \<noteq> []
                                then [Incomplete (length error_chunks + length pending_chunks)]
                                else [])\<rparr>))"

definition rebuild_main :: "files \<Rightarrow> string \<Rightarrow> py_error + rebuilt" where
  "rebuild_main fs json_file =
     (if fs json_file = None
      then Inr \<lparr>rb_exit = 1, rb_written = None, rb_msgs = [ErrNotFound json_file]\<rparr>
      else rebuild_chunks fs json_file)"

section \<open>Observations and example data\<close>

text \<open>The chunk indices handed to \<open>process_chunk\<close>, in the order of the log.\<close>

primrec submitted :: "event list \<Rightarrow> nat list" where
  "submitted [] = []"
| "submitted (e # es) = (case e of Submit i t \<Rightarrow> i # submitted es | Save f d \<Rightarrow> submitted es)"

text \<open>
  The requests a run is to make for the chunk indices \<open>pend\<close> of a job, numbered
  from \<open>idx\<close>: one for each index, in order, with the prompt made from the template
  and the text of that chunk.
\<close>

definition expected_calls :: "job \<Rightarrow> string \<Rightarrow> string \<Rightarrow> nat \<Rightarrow> nat list \<Rightarrow> request list" where
  "expected_calls data prompt_template model idx pend =
     map (\<lambda>(k, i). (k, model, replace_text (c_text (j_chunks data ! i)) prompt_template))
       (enumerate idx pend)"

text \<open>Every chunk marked done carries a result that is a non-empty string.\<close>

definition done_has_result :: "job \<Rightarrow> bool" where
  "done_has_result data \<longleftrightarrow>
     (\<forall>c\<in>set (j_chunks data). c_status c = ''done'' \<longrightarrow> (\<exists>r. c_result c = Some r \<and> r \<noteq> []))"

text \<open>What a chunk contributes to the rebuilt text: its result, nothing if it is null.\<close>

definition result_text :: "chunk \<Rightarrow> string" where
  "result_text c = (case c_result c of Some r \<Rightarrow> r | None \<Rightarrow> [])"

text \<open>The exit status and the printed lines of a run of an entry point.\<close>

definition process_exit :: "py_error + outcome \<Rightarrow> int option" where
  "process_exit r = (case r of Inr out \<Rightarrow> Some (exit_code out) | Inl e \<Rightarrow> None)"

definition rebuild_exit :: "py_error + rebuilt \<Rightarrow> int option" where
  "rebuild_exit r = (case r of Inr out \<Rightarrow> Some (rb_exit out) | Inl e \<Rightarrow> None)"

definition process_msgs :: "py_error + outcome \<Rightarrow> message list" where
  "process_msgs r = (case r of Inr out \<Rightarrow> out_msgs out | Inl e \<Rightarrow> [])"

definition rebuild_msgs :: "py_error + rebuilt \<Rightarrow> message list" where
  "rebuild_msgs r = (case r of Inr out \<Rightarrow> rb_msgs out | Inl e \<Rightarrow> [])"

text \<open>
  An environment with a key, three services (one that answers with the prompt, one that
  answers with the empty string, one that always fails) and four jobs: a fresh one, the
  specification's example with a failed segment between two done ones, that job after a
  run in which the retry succeeds, and a complete one.
\<close>

definition env0 :: env where
  "env0 = \<lparr>openai_key = Some ''sk-test'', model_name = None\<rparr>"

definition echo_client :: client where
  "echo_client n m p = Inr (Some p)"

definition empty_client :: client where
  "empty_client n m p = Inr (Some [])"

definition failing_client :: client where
  "failing_client n m p = Inl ''timeout''"

definition job_new :: job where
  "job_new = make_data ''book'' 10 [''Hello '', ''world.'']"

definition job_mixed :: job where
  "job_mixed =
     \<lparr>j_meta = \<lparr>m_book_id = ''book'', m_chunk_size = 10, m_total_chunks = 3\<rparr>,
      j_chunks =
        [\<lparr>c_index = 0, c_text = ''a'', c_status = ''done'', c_result = Some ''A'', c_error = None\<rparr>,
         \<lparr>c_index = 1, c_text = ''x'', c_status = ''error'', c_result = None,
           c_error = Some ''timeout''\<rparr>,
         \<lparr>c_index = 2, c_text = ''b'', c_status = ''done'', c_result = Some ''B'', c_error = None\<rparr>]\<rparr>"

definition job_mixed_after :: job where
  "job_mixed_after =
     \<lparr>j_meta = \<lparr>m_book_id = ''book'', m_chunk_size = 10, m_total_chunks = 3\<rparr>,
      j_chunks =
        [\<lparr>c_index = 0, c_text = ''a'', c_status = ''done'', c_result = Some ''A'', c_error = None\<rparr>,
         \<lparr>c_index = 1, c_text = ''x'', c_status = ''done'', c_result = Some ''Fix: x'',
           c_error = None\<rparr>,
         \<lparr>c_index = 2, c_text = ''b'', c_status = ''done'', c_result = Some ''B'', c_error = None\<rparr>]\<rparr>"

definition job_done :: job where
  "job_done =
     \<lparr>j_meta = \<lparr>m_book_id = ''book'', m_chunk_size = 10, m_total_chunks = 1\<rparr>,
      j_chunks =
        [\<lparr>c_index = 0, c_text = ''a'', c_status = ''done'', c_result = Some ''A'', c_error = None\<rparr>]\<rparr>"

definition run0 :: "job \<Rightarrow> run" where
  "run0 data = \<lparr>r_data = data, r_tracker = tracker_init (length (j_chunks data)),
                r_files = [''job.json'' \<mapsto> data], r_log = [], r_calls = []\<rparr>"


section \<open>Properties of the segmenter\<close>

subsection \<open>Searching backwards\<close>

lemma rscan_none: "(rscan s c lo k = - 1) = (\<forall>p. lo \<le> p \<and> p < lo + k \<longrightarrow> s ! p \<noteq> c)"
proof (induction k)
  case 0
  show ?case by auto
next
  case (Suc k)
  show ?case
  proof (cases "s ! (lo + k) = c")
    case True
    then show ?thesis by (auto intro!: exI [of _ "lo + k"])
  next
    case False
    have "\<And>p. (p < lo + Suc k) = (p < lo + k \<or> p = lo + k)" by auto
    with False Suc show ?thesis by auto
  qed
qed

lemma rscan_found:
  "rscan s c lo k \<noteq> - 1 \<Longrightarrow>
     \<exists>p. rscan s c lo k = int p \<and> lo \<le> p \<and> p < lo + k \<and> s ! p = c \<and>
         (\<forall>q. p < q \<and> q < lo + k \<longrightarrow> s ! q \<noteq> c)"
proof (induction k)
  case 0
  then show ?case by simp
next
  case (Suc k)
  show ?case
  proof (cases "s ! (lo + k) = c")
    case True
    then show ?thesis by (intro exI [of _ "lo + k"]) auto
  next
    case False
    with Suc obtain p where p: "rscan s c lo k = int p" "lo \<le> p" "p < lo + k" "s ! p = c"
      "\<forall>q. p < q \<and> q < lo + k \<longrightarrow> s ! q \<noteq> c" by auto
    have "\<forall>q. p < q \<and> q < lo + Suc k \<longrightarrow> s ! q \<noteq> c"
      using p(5) False by (auto simp: less_Suc_eq)
    with p False show ?thesis by auto
  qed
qed

lemma int_half_pos: "0 \<le> b \<Longrightarrow> int_half b = b div 2"
  by (simp add: int_half_def)

lemma in_window_iff:
  "0 \<le> b \<Longrightarrow> in_window start b p \<longleftrightarrow> start + b - int_half b \<le> p \<and> p < start + b"
proof -
  assume b: "0 \<le> b"
  have "(real_of_int (start + b) - real_of_int b * 0.5 \<le> real_of_int p) = (2 * start + b \<le> 2 * p)"
  proof -
    have "(real_of_int (start + b) - real_of_int b * 0.5 \<le> real_of_int p)
          = (real_of_int (2 * start + b) \<le> real_of_int (2 * p))"
      by (simp add: field_simps)
    then show ?thesis by (simp only: of_int_le_iff)
  qed
  moreover have "(2 * start + b \<le> 2 * p) = (start + b - b div 2 \<le> p)" by presburger
  moreover have "start + b - b div 2 \<le> p \<Longrightarrow> start \<le> p" using b by presburger
  ultimately show ?thesis using b
    by (auto simp: in_window_def int_half_pos)
qed

lemma occurrences_iff:
  "0 \<le> b \<Longrightarrow> p \<in> occurrences str c start b \<longleftrightarrow>
      start + b - int_half b \<le> p \<and> p < start + b \<and> str ! nat p = c"
  using in_window_iff [of b start p] by (auto simp: occurrences_def int_half_pos)

lemma finite_occurrences: "finite (occurrences str c start b)"
  by (rule finite_subset [of _ "{start..<start + b}"]) (auto simp: occurrences_def)

lemma rfind_window:
  assumes "1 \<le> b" "0 \<le> start" "start + b \<le> int (length str)"
  shows "rfind str c (max start (start + b - int_half b)) (start + b) =
           (if occurrences str c start b = {} then - 1 else Max (occurrences str c start b))"
proof -
  let ?lo = "start + b - int_half b"
  have h: "0 \<le> int_half b" "int_half b \<le> b"
    using assms by (simp_all add: int_half_pos)
  have lo: "start \<le> ?lo" "?lo \<le> start + b" "0 \<le> ?lo"
    using assms h by simp_all
  have "start + b - ?lo = int_half b" by simp
  then have rf: "rfind str c (max start ?lo) (start + b) = rscan str c (nat ?lo) (nat (int_half b))"
    using assms lo h by (cases "int_half b = 0") (simp_all add: rfind_def Let_def max_def)
  show ?thesis
  proof (cases "rscan str c (nat ?lo) (nat (int_half b)) = - 1")
    case True
    have "occurrences str c start b = {}"
    proof (rule ccontr)
      assume "occurrences str c start b \<noteq> {}"
      then obtain p where "p \<in> occurrences str c start b" by blast
      then have p: "?lo \<le> p" "p < start + b" "str ! nat p = c"
        using assms by (simp_all add: occurrences_iff)
      have "nat ?lo \<le> nat p \<and> nat p < nat ?lo + nat (int_half b)"
        using p lo by linarith
      moreover from True
      have "\<forall>q. nat ?lo \<le> q \<and> q < nat ?lo + nat (int_half b) \<longrightarrow> str ! q \<noteq> c"
        by (simp only: rscan_none)
      ultimately show False using p(3) by blast
    qed
    with True rf show ?thesis by simp
  next
    case False
    from rscan_found [OF False] obtain p where p:
      "rscan str c (nat ?lo) (nat (int_half b)) = int p" "nat ?lo \<le> p"
      "p < nat ?lo + nat (int_half b)" "str ! p = c"
      "\<forall>q. p < q \<and> q < nat ?lo + nat (int_half b) \<longrightarrow> str ! q \<noteq> c" by blast
    have mem: "int p \<in> occurrences str c start b"
      using p lo assms by (simp add: occurrences_iff) linarith
    have "\<And>x. x \<in> occurrences str c start b \<Longrightarrow> x \<le> int p"
    proof (rule ccontr)
      fix x assume x: "x \<in> occurrences str c start b" and "\<not> x \<le> int p"
      then have "p < nat x" by linarith
      moreover have "nat x < nat ?lo + nat (int_half b)" "str ! nat x = c"
        using x lo assms by (simp_all add: occurrences_iff) linarith
      ultimately show False using p(5) by blast
    qed
    with mem have "Max (occurrences str c start b) = int p"
      by (intro Max_eqI finite_occurrences) 
    with mem p(1) rf show ?thesis by auto
  qed
qed

lemma best_break_spec_cut:
  assumes "1 \<le> b" "0 \<le> start" "start + b \<le> int (length str)"
  shows "best_break str b start = spec_cut str b start"
proof -
  have M: "\<And>c. occurrences str c start b \<noteq> {} \<Longrightarrow> Max (occurrences str c start b) \<noteq> - 1"
  proof -
    fix c assume "occurrences str c start b \<noteq> {}"
    then have "Max (occurrences str c start b) \<in> occurrences str c start b"
      by (intro Max_in finite_occurrences)
    moreover have "b div 2 \<le> b" using assms by simp
    ultimately show "Max (occurrences str c start b) \<noteq> - 1"
      using assms by (simp add: occurrences_iff int_half_pos) 
  qed
  show ?thesis
    using M by (simp add: best_break_def spec_cut_def boundaries_def Let_def rfind_window [OF assms])
qed

lemma best_break_cases:
  assumes "1 \<le> b" "0 \<le> start" "start + b \<le> int (length str)"
  shows "((\<forall>c\<in>set boundaries. occurrences str c start b = {}) \<and> best_break str b start = start + b)
       \<or> (\<exists>c\<in>set boundaries. \<exists>p\<in>occurrences str c start b. best_break str b start = p + 1)"
proof (cases "find (\<lambda>c. occurrences str c start b \<noteq> {}) boundaries")
  case None
  then have "\<forall>c\<in>set boundaries. occurrences str c start b = {}"
    by (simp add: find_None_iff)
  moreover from None have "best_break str b start = start + b"
    by (simp add: best_break_spec_cut [OF assms] spec_cut_def)
  ultimately show ?thesis by blast
next
  case (Some c)
  then have c: "c \<in> set boundaries" "occurrences str c start b \<noteq> {}"
    by (auto simp: find_Some_iff)
  then have "Max (occurrences str c start b) \<in> occurrences str c start b"
    by (intro Max_in finite_occurrences)
  moreover from Some have "best_break str b start = Max (occurrences str c start b) + 1"
    by (simp add: best_break_spec_cut [OF assms] spec_cut_def)
  ultimately show ?thesis using c(1) by blast
qed

lemma best_break_range:
  assumes "1 \<le> b" "0 \<le> start" "start + b \<le> int (length str)"
  shows "best_break str b start \<le> start + b" "start < best_break str b start"
    "b \<le> 2 * (best_break str b start - start)"
proof -
  have h: "b \<le> 2 * (b - int_half b)" "int_half b \<le> b"
    using assms(1) by (simp_all add: int_half_pos)
  from best_break_cases [OF assms]
  have "(start + b - int_half b < best_break str b start \<or> best_break str b start = start + b)
      \<and> best_break str b start \<le> start + b"
    using assms(1) h by (auto simp: occurrences_iff)
  then have c: "best_break str b start \<le> start + b"
    and d: "start + b - int_half b < best_break str b start \<or> best_break str b start = start + b"
    by blast+
  show "best_break str b start \<le> start + b" by (rule c)
  from d h assms(1) show "start < best_break str b start" by (elim disjE) linarith+
  from d h assms(1) show "b \<le> 2 * (best_break str b start - start)" by (elim disjE) presburger+
qed

lemma slice_in_range:
  "0 \<le> a \<Longrightarrow> a \<le> c \<Longrightarrow> c \<le> int (length s) \<Longrightarrow>
     slice s a c = take (nat (c - a)) (drop (nat a) s)"
  by (simp add: slice_def slice_index_def Let_def min_def)

lemma length_slice:
  "0 \<le> a \<Longrightarrow> a \<le> c \<Longrightarrow> c \<le> int (length s) \<Longrightarrow> int (length (slice s a c)) = c - a"
  by (simp add: slice_in_range)

lemma slice_from_in_range:
  "0 \<le> a \<Longrightarrow> a \<le> int (length s) \<Longrightarrow> slice_from s a = drop (nat a) s"
  by (simp add: slice_from_def slice_index_def min_def)

lemma slice_append_drop:
  assumes "0 \<le> a" "a \<le> c" "c \<le> int (length s)"
  shows "slice s a c @ drop (nat c) s = drop (nat a) s"
proof -
  have "nat c = nat (c - a) + nat a" using assms by linarith
  then have "drop (nat c) s = drop (nat (c - a)) (drop (nat a) s)"
    by (simp only: drop_drop)
  then show ?thesis by (simp only: slice_in_range [OF assms] append_take_drop_id)
qed

lemma chunk_loop_step:
  "start + b < int (length str) \<Longrightarrow> 0 < b \<Longrightarrow>
     chunk_loop str b start chunks =
       chunk_loop str b (best_break str b start) (chunks @ [slice str start (best_break str b start)])"
  by (subst chunk_loop.simps) simp

lemma chunk_loop_last:
  "start < int (length str) \<Longrightarrow> int (length str) \<le> start + b \<Longrightarrow>
     chunk_loop str b start chunks = Some (chunks @ [slice_from str start])"
  by (subst chunk_loop.simps) simp

lemma chunk_loop_done:
  "int (length str) \<le> start \<Longrightarrow> chunk_loop str b start chunks = Some chunks"
  by (subst chunk_loop.simps) simp

lemma chunk_loop_result:
  assumes b: "1 \<le> b"
  shows "0 \<le> start \<Longrightarrow>
     \<exists>segs. chunk_loop str b start chunks = Some (chunks @ segs) \<and>
        concat segs = drop (nat start) str \<and> [] \<notin> set segs \<and> loop_steps str b start segs"
proof (induction "nat (int (length str) - start)" arbitrary: start chunks rule: less_induct)
  case less
  note start = \<open>0 \<le> start\<close>
  consider (finished) "int (length str) \<le> start"
    | (last) "start < int (length str)" "int (length str) \<le> start + b"
    | (step) "start + b < int (length str)" by linarith
  then show ?case
  proof cases
    case finished
    then show ?thesis by (simp add: chunk_loop_done loop_steps_def)
  next
    case last
    then have "slice_from str start \<noteq> []"
      using start by (simp add: slice_from_in_range)
    with last start show ?thesis
      by (simp add: chunk_loop_last loop_steps_def slice_from_in_range)
  next
    case step
    let ?cut = "best_break str b start"
    let ?seg = "slice str start ?cut"
    have le: "start + b \<le> int (length str)" using step by simp
    note r = best_break_range [OF b start le]
    have cut: "0 \<le> ?cut" "?cut \<le> int (length str)" "start \<le> ?cut"
      using r start step by linarith+
    have "nat (int (length str) - ?cut) < nat (int (length str) - start)"
      using r step b by linarith
    from less(1) [OF this cut(1), of "chunks @ [?seg]"]
    obtain segs where segs: "chunk_loop str b ?cut (chunks @ [?seg]) = Some ((chunks @ [?seg]) @ segs)"
      "concat segs = drop (nat ?cut) str" "[] \<notin> set segs" "loop_steps str b ?cut segs" by blast
    have len: "int (length ?seg) = ?cut - start"
      by (rule length_slice [OF start cut(3) cut(2)])
    then have ne: "?seg \<noteq> []" using r(2) by auto
    have 1: "chunk_loop str b start chunks = Some (chunks @ (?seg # segs))"
      using step b segs(1) by (simp add: chunk_loop_step)
    have 2: "concat (?seg # segs) = drop (nat start) str"
      using segs(2) by (simp add: slice_append_drop [OF start cut(3) cut(2)])
    have 3: "[] \<notin> set (?seg # segs)" using ne segs(3) by auto
    have 4: "loop_steps str b start (?seg # segs)"
      unfolding loop_steps_def
    proof (intro allI impI)
      fix i assume i: "Suc i < length (?seg # segs)"
      show "let st = start + int (length (concat (take i (?seg # segs))))
         in 0 \<le> st \<and> st + b < int (length str) \<and>
            (?seg # segs) ! i = slice str st (best_break str b st)"
      proof (cases i)
        case 0
        then show ?thesis using start step by simp
      next
        case (Suc j)
        with i have "Suc j < length segs" by simp
        with segs(4) have IH: "let st = ?cut + int (length (concat (take j segs)))
         in 0 \<le> st \<and> st + b < int (length str) \<and>
            segs ! j = slice str st (best_break str b st)"
          by (simp add: loop_steps_def)
        have eq: "start + int (length (concat (take i (?seg # segs))))
            = ?cut + int (length (concat (take j segs)))"
          using Suc len by simp
        have nth: "(?seg # segs) ! i = segs ! j" using Suc by simp
        show ?thesis unfolding eq nth by (rule IH)
      qed
    qed
    from 1 2 3 4 show ?thesis by blast
  qed
qed


lemma chunk_text_result:
  assumes "1 \<le> b"
  shows "\<exists>segs. chunk_text str b = Some segs \<and> concat segs = str \<and> [] \<notin> set segs \<and>
           loop_steps str b 0 segs"
  using chunk_loop_result [OF assms, of 0 str "[]"] by (simp add: chunk_text_def)

subsection \<open>A budget of zero\<close>

text \<open>
  The precondition on the budget is needed: with budget \<open>0\<close> the break is the start
  position itself, and the loop never returns on a non-empty text.
\<close>

lemma best_break_zero: "best_break str 0 start = start"
  by (simp add: best_break_def rfind_def int_half_def Let_def)

lemma chunk_loop_zero_budget:
  assumes "chunk_loop str b start chunks = Some y"
  shows "\<not> (b = 0 \<and> start < int (length str))"
proof (rule chunk_loop.raw_induct
    [where P = "\<lambda>str b start chunks y. \<not> (b = 0 \<and> start < int (length str))", OF _ assms])
  fix f str b start chunks y
  assume IH: "\<And>str b start chunks y. f str b start chunks = Some y \<Longrightarrow>
      \<not> (b = 0 \<and> start < int (length str))"
    and eq: "(if start < int (length str)
      then if int (length str) \<le> start + b
           then Some (chunks @ [slice_from str start])
           else f str b (best_break str b start) (chunks @ [slice str start (best_break str b start)])
      else Some chunks) = Some y"
  show "\<not> (b = 0 \<and> start < int (length str))"
  proof
    assume a: "b = 0 \<and> start < int (length str)"
    with eq have "f str 0 start (chunks @ [slice str start start]) = Some y"
      by (simp add: best_break_zero)
    from IH [OF this] a show False by simp
  qed
qed

lemma chunk_text_zero_budget: "chunk_text ''a'' 0 = None"
proof (cases "chunk_text ''a'' 0")
  case None
  then show ?thesis .
next
  case (Some y)
  then have "chunk_loop ''a'' 0 0 [] = Some y" by (simp add: chunk_text_def)
  from chunk_loop_zero_budget [OF this] show ?thesis by simp
qed

subsection \<open>The claims about \<open>chunk_text\<close>\<close>

text \<open>
  Claim C1. For every text \<open>T\<close> and every budget \<open>b \<ge> 1\<close>, \<open>chunk_text\<close>
  returns, and the concatenation of the returned segments in output order is \<open>T\<close>
  itself: nothing is dropped, duplicated or reordered.
\<close>

theorem chunk_text_roundtrip:
  "1 \<le> b \<Longrightarrow> \<exists>segs. chunk_text T b = Some segs \<and> concat segs = T"
  using chunk_text_result [of b T] by blast

theorem chunk_text_roundtrip_witness:
  "(1::int) \<le> 10 \<and> (\<exists>segs. chunk_text ''Hello world. Foo bar,'' 10 = Some segs \<and>
      concat segs = ''Hello world. Foo bar,'')"
  using chunk_text_roundtrip [of 10 "''Hello world. Foo bar,''"] by simp

text \<open>
  Claim C3. With budget \<open>b \<ge> 1\<close>, at every iteration where more than \<open>b\<close>
  characters remain from \<open>start\<close>, the break chosen by the code is \<open>spec_cut\<close>:
  immediately after the rightmost occurrence, within the window
  \<open>[max(start, ideal - b * 0.5), ideal)\<close>, of the first class in the order newline,
  period, comma, space that occurs in the window, and \<open>ideal\<close> itself if none does.
  The loop continues from that cut with the slice up to it appended, and every segment of
  the result of \<open>chunk_text\<close> except the last is such a slice, taken at the position
  where its predecessors end.
\<close>

theorem chunk_text_cut_point:
  assumes "1 \<le> b"
  shows "(\<forall>start chunks. 0 \<le> start \<and> start + b < int (length str) \<longrightarrow>
            best_break str b start = spec_cut str b start \<and>
            chunk_loop str b start chunks =
              chunk_loop str b (spec_cut str b start)
                (chunks @ [slice str start (spec_cut str b start)]))
       \<and> (\<exists>segs. chunk_text str b = Some segs \<and>
            (\<forall>i. Suc i < length segs \<longrightarrow>
               (let start = int (length (concat (take i segs)))
                in start + b < int (length str) \<and>
                   segs ! i = slice str start (spec_cut str b start))))"
proof (intro conjI allI impI)
  fix start chunks
  assume a: "0 \<le> start \<and> start + b < int (length str)"
  then have eq: "best_break str b start = spec_cut str b start"
    using assms by (intro best_break_spec_cut) simp_all
  then show "best_break str b start = spec_cut str b start" .
  show "chunk_loop str b start chunks =
      chunk_loop str b (spec_cut str b start) (chunks @ [slice str start (spec_cut str b start)])"
    using a assms chunk_loop_step [of start b str chunks] by (simp add: eq)
next
  from chunk_text_result [OF assms, of str]
  obtain segs where segs: "chunk_text str b = Some segs" "loop_steps str b 0 segs" by blast
  have "\<forall>i. Suc i < length segs \<longrightarrow>
               (let start = int (length (concat (take i segs)))
                in start + b < int (length str) \<and>
                   segs ! i = slice str start (spec_cut str b start))"
  proof (intro allI impI)
    fix i assume "Suc i < length segs"
    with segs(2) have s: "0 \<le> int (length (concat (take i segs)))"
      "int (length (concat (take i segs))) + b < int (length str)"
      "segs ! i = slice str (int (length (concat (take i segs))))
          (best_break str b (int (length (concat (take i segs)))))"
      by (simp_all add: loop_steps_def Let_def)
    from s(1,2) assms have "best_break str b (int (length (concat (take i segs))))
        = spec_cut str b (int (length (concat (take i segs))))"
      by (intro best_break_spec_cut) simp_all
    with s show "let start = int (length (concat (take i segs)))
                in start + b < int (length str) \<and>
                   segs ! i = slice str start (spec_cut str b start)"
      by (simp add: Let_def)
  qed
  with segs(1) show "\<exists>segs. chunk_text str b = Some segs \<and>
            (\<forall>i. Suc i < length segs \<longrightarrow>
               (let start = int (length (concat (take i segs)))
                in start + b < int (length str) \<and>
                   segs ! i = slice str start (spec_cut str b start)))" by blast
qed

theorem chunk_text_cut_point_witness:
  "(1::int) \<le> 10 \<and> (0::int) \<le> 0 \<and> 0 + 10 < int (length crafted) \<and>
   best_break crafted 10 0 = spec_cut crafted 10 0 \<and> spec_cut crafted 10 0 = 6 \<and>
   chunk_text crafted 10 = Some [''aaaaa'' @ [newline], ''. bbbbbbbb''] \<and>
   Suc 0 < length [''aaaaa'' @ [newline], ''. bbbbbbbb''] \<and>
   [''aaaaa'' @ [newline], ''. bbbbbbbb''] ! 0 = slice crafted 0 (spec_cut crafted 10 0)"
proof -
  have b: "(1::int) \<le> 10" by simp
  have len: "(0::int) \<le> 0 \<and> 0 + 10 < int (length crafted)" by (simp add: crafted_def)
  have cut: "spec_cut crafted 10 0 = 6" by code_simp
  have res: "chunk_text crafted 10 = Some [''aaaaa'' @ [newline], ''. bbbbbbbb'']" by code_simp
  note t = chunk_text_cut_point [OF b, of crafted]
  from t len have 1: "best_break crafted 10 0 = spec_cut crafted 10 0" by blast
  from t res have "\<forall>i. Suc i < length [''aaaaa'' @ [newline], ''. bbbbbbbb''] \<longrightarrow>
       (let start = int (length (concat (take i [''aaaaa'' @ [newline], ''. bbbbbbbb''])))
        in start + 10 < int (length crafted) \<and>
           [''aaaaa'' @ [newline], ''. bbbbbbbb''] ! i = slice crafted start (spec_cut crafted 10 start))"
    by simp
  then have 2: "[''aaaaa'' @ [newline], ''. bbbbbbbb''] ! 0 = slice crafted 0 (spec_cut crafted 10 0)"
    by (simp add: Let_def)
  from b len 1 cut res 2 show ?thesis by simp
qed

text \<open>
  Claim C6, as the specification states it, fails: \<open>chunk_text\<close> on
  \<open>Hello world. Foo bar,\<close> with budget 10 does not return the two segments
  \<open>Hello world.\<close> and \<open> Foo bar,\<close>. The period at position 11 is outside the
  first window \<open>[5, 10)\<close>, whose only boundary character is the space at position 5.
\<close>

theorem chunk_text_example_two_refuted:
  "chunk_text ''Hello world. Foo bar,'' 10 \<noteq> Some [''Hello world.'', '' Foo bar,'']"
  by code_simp

text \<open>
  Claim C6, amended: \<open>chunk_text\<close> on \<open>Hello world. Foo bar,\<close> with budget 10
  returns exactly three segments: \<open>Hello \<close>, \<open>world.\<close> and \<open> Foo bar,\<close>.
\<close>

theorem chunk_text_example_three:
  "chunk_text ''Hello world. Foo bar,'' 10 = Some [''Hello '', ''world.'', '' Foo bar,'']"
  by code_simp

text \<open>
  Claim C7. For every text and every budget \<open>b \<ge> 1\<close>, every segment returned by
  \<open>chunk_text\<close> except the last has a length in \<open>[b * 0.5, b]\<close> (in every case,
  so in particular when a boundary character lies in the window), and its length is
  exactly \<open>b\<close> when no boundary character occurs in the search window of the
  iteration that produced it.
\<close>

theorem chunk_text_budget:
  assumes "1 \<le> b"
  shows "\<exists>segs. chunk_text str b = Some segs \<and>
      (\<forall>i. Suc i < length segs \<longrightarrow>
         (let start = int (length (concat (take i segs)))
          in real_of_int b * 0.5 \<le> real (length (segs ! i)) \<and> int (length (segs ! i)) \<le> b \<and>
             ((\<forall>c\<in>set boundaries. occurrences str c start b = {}) \<longrightarrow>
                int (length (segs ! i)) = b)))"
proof -
  from chunk_text_result [OF assms, of str]
  obtain segs where segs: "chunk_text str b = Some segs" "loop_steps str b 0 segs" by blast
  have "\<forall>i. Suc i < length segs \<longrightarrow>
         (let start = int (length (concat (take i segs)))
          in real_of_int b * 0.5 \<le> real (length (segs ! i)) \<and> int (length (segs ! i)) \<le> b \<and>
             ((\<forall>c\<in>set boundaries. occurrences str c start b = {}) \<longrightarrow>
                int (length (segs ! i)) = b))"
  proof (intro allI impI)
    fix i assume "Suc i < length segs"
    define st where "st = int (length (concat (take i segs)))"
    from \<open>Suc i < length segs\<close> segs(2) have s: "0 \<le> st" "st + b < int (length str)"
      "segs ! i = slice str st (best_break str b st)"
      by (simp_all add: loop_steps_def Let_def st_def)
    have le: "st + b \<le> int (length str)" using s(2) by simp
    note r = best_break_range [OF assms s(1) le]
    have len: "int (length (segs ! i)) = best_break str b st - st"
      using r s by (simp add: length_slice)
    have 1: "real_of_int b * 0.5 \<le> real (length (segs ! i))"
    proof -
      have "b \<le> 2 * int (length (segs ! i))" using r(3) len by simp
      then have "real_of_int b \<le> 2 * real (length (segs ! i))"
        by (metis of_int_le_iff of_int_mult of_int_numeral of_int_of_nat_eq)
      then show ?thesis by simp
    qed
    have 2: "int (length (segs ! i)) \<le> b" using r(1) len by simp
    have 3: "(\<forall>c\<in>set boundaries. occurrences str c st b = {}) \<longrightarrow> int (length (segs ! i)) = b"
      using best_break_cases [OF assms s(1) le] len by auto
    from 1 2 3 show "let start = int (length (concat (take i segs)))
          in real_of_int b * 0.5 \<le> real (length (segs ! i)) \<and> int (length (segs ! i)) \<le> b \<and>
             ((\<forall>c\<in>set boundaries. occurrences str c start b = {}) \<longrightarrow>
                int (length (segs ! i)) = b)"
      by (simp add: Let_def st_def)
  qed
  with segs(1) show ?thesis by blast
qed

theorem chunk_text_budget_witness:
  "(1::int) \<le> 5 \<and> chunk_text ''abcdefghijkl'' 5 = Some [''abcde'', ''fghij'', ''kl''] \<and>
   Suc 0 < length [''abcde'', ''fghij'', ''kl''] \<and>
   occurrences ''abcdefghijkl'' newline 0 5 = {} \<and>
   occurrences ''abcdefghijkl'' period 0 5 = {} \<and>
   occurrences ''abcdefghijkl'' comma 0 5 = {} \<and>
   occurrences ''abcdefghijkl'' space 0 5 = {} \<and>
   real_of_int 5 * 0.5 \<le> real (length ([''abcde'', ''fghij'', ''kl''] ! 0)) \<and>
   int (length ([''abcde'', ''fghij'', ''kl''] ! 0)) = 5"
proof -
  have b: "(1::int) \<le> 5" by simp
  have res: "chunk_text ''abcdefghijkl'' 5 = Some [''abcde'', ''fghij'', ''kl'']" by code_simp
  have occ4: "occurrences ''abcdefghijkl'' newline 0 5 = {}"
    "occurrences ''abcdefghijkl'' period 0 5 = {}"
    "occurrences ''abcdefghijkl'' comma 0 5 = {}"
    "occurrences ''abcdefghijkl'' space 0 5 = {}" by code_simp+
  then have occ: "\<forall>c\<in>set boundaries. occurrences ''abcdefghijkl'' c 0 5 = {}"
    by (simp add: boundaries_def)
  from chunk_text_budget [OF b, of "''abcdefghijkl''"] res
  have "\<forall>i. Suc i < length [''abcde'', ''fghij'', ''kl''] \<longrightarrow>
         (let start = int (length (concat (take i [''abcde'', ''fghij'', ''kl''])))
          in real_of_int 5 * 0.5 \<le> real (length ([''abcde'', ''fghij'', ''kl''] ! i)) \<and>
             int (length ([''abcde'', ''fghij'', ''kl''] ! i)) \<le> 5 \<and>
             ((\<forall>c\<in>set boundaries. occurrences ''abcdefghijkl'' c start 5 = {}) \<longrightarrow>
                int (length ([''abcde'', ''fghij'', ''kl''] ! i)) = 5))"
    by simp
  then have "real_of_int 5 * 0.5 \<le> real (length ([''abcde'', ''fghij'', ''kl''] ! 0)) \<and>
     ((\<forall>c\<in>set boundaries. occurrences ''abcdefghijkl'' c 0 5 = {}) \<longrightarrow>
                int (length ([''abcde'', ''fghij'', ''kl''] ! 0)) = 5)"
    by (simp add: Let_def)
  with occ have "real_of_int 5 * 0.5 \<le> real (length ([''abcde'', ''fghij'', ''kl''] ! 0)) \<and>
     int (length ([''abcde'', ''fghij'', ''kl''] ! 0)) = 5" by blast
  with b res occ4 show ?thesis by simp
qed

text \<open>
  Claim C8. With budget \<open>b \<ge> 1\<close>, \<open>chunk_text\<close> returns on every text and no
  returned segment is empty; at every iteration that goes on, the new start position is
  strictly greater than the old one and still inside the text.
\<close>

theorem chunk_text_terminates:
  assumes "1 \<le> b"
  shows "(\<exists>segs. chunk_text str b = Some segs \<and> [] \<notin> set segs) \<and>
         (\<forall>start. 0 \<le> start \<and> start + b < int (length str) \<longrightarrow>
            start < best_break str b start \<and> best_break str b start < int (length str))"
proof
  from chunk_text_result [OF assms, of str]
  show "\<exists>segs. chunk_text str b = Some segs \<and> [] \<notin> set segs" by blast
  show "\<forall>start. 0 \<le> start \<and> start + b < int (length str) \<longrightarrow>
            start < best_break str b start \<and> best_break str b start < int (length str)"
  proof (intro allI impI)
    fix start assume a: "0 \<le> start \<and> start + b < int (length str)"
    then have le: "start + b \<le> int (length str)" and s: "0 \<le> start" by simp_all
    from best_break_range [OF assms s le] a
    show "start < best_break str b start \<and> best_break str b start < int (length str)" by simp
  qed
qed

theorem chunk_text_terminates_witness:
  "(1::int) \<le> 10 \<and> (\<exists>segs. chunk_text ''Hello world. Foo bar,'' 10 = Some segs \<and> [] \<notin> set segs) \<and>
   (0::int) \<le> 0 \<and> 0 + 10 < int (length ''Hello world. Foo bar,'') \<and>
   0 < best_break ''Hello world. Foo bar,'' 10 0 \<and>
   best_break ''Hello world. Foo bar,'' 10 0 < int (length ''Hello world. Foo bar,'')"
proof -
  have b: "(1::int) \<le> 10" by simp
  have len: "(0::int) \<le> 0 \<and> 0 + 10 < int (length ''Hello world. Foo bar,'')" by simp
  note t = chunk_text_terminates [OF b, of "''Hello world. Foo bar,''"]
  from t len have "0 < best_break ''Hello world. Foo bar,'' 10 0 \<and>
   best_break ''Hello world. Foo bar,'' 10 0 < int (length ''Hello world. Foo bar,'')" by blast
  with t b len show ?thesis by blast
qed

section \<open>Properties of the pipeline runner\<close>

subsection \<open>The scan and the log\<close>

lemma submitted_append: "submitted (xs @ ys) = submitted xs @ submitted ys"
  by (induction xs) (auto split: event.splits)

lemma scan_fst:
  "fst (scan cs i p d) = p @ map fst (filter (\<lambda>(k, c). c_status c \<noteq> ''done'') (enumerate i cs))"
  by (induction cs arbitrary: i p d) auto

lemma scan_sorted: "sorted_wrt (<) (fst (scan cs 0 [] 0))"
proof -
  have "sorted_wrt (<) (map fst (enumerate 0 cs))"
    by (simp add: map_fst_enumerate)
  then have "sorted_wrt (\<lambda>x y. fst x < fst y) (enumerate 0 cs)"
    by (simp only: sorted_wrt_map)
  then have "sorted_wrt (\<lambda>x y. fst x < fst y)
      (filter (\<lambda>(k, c). c_status c \<noteq> ''done'') (enumerate 0 cs))"
    by (rule sorted_wrt_filter)
  then show ?thesis by (simp add: scan_fst sorted_wrt_map)
qed

lemma scan_set:
  "set (fst (scan cs 0 [] 0)) = {i. i < length cs \<and> c_status (cs ! i) \<noteq> ''done''}"
  by (force simp: scan_fst in_set_enumerate_eq)

lemma scan_empty:
  "(fst (scan cs 0 [] 0) = []) = (\<forall>c\<in>set cs. c_status c = ''done'')"
proof -
  have "(fst (scan cs 0 [] 0) = []) = (set (fst (scan cs 0 [] 0)) = {})" by simp
  also have "\<dots> = (\<forall>i<length cs. c_status (cs ! i) = ''done'')"
    by (auto simp: scan_set)
  also have "\<dots> = (\<forall>c\<in>set cs. c_status c = ''done'')"
    by (auto simp: all_set_conv_all_nth)
  finally show ?thesis .
qed

lemma process_one_log:
  "r_log (process_one client f pt m idx i st) =
     r_log st @ [Submit i (c_text (j_chunks (r_data st) ! i)),
                 Save f (r_data (process_one client f pt m idx i st))]"
  by (simp add: process_one_def Let_def split: prod.splits)

lemma process_one_files:
  "r_files (process_one client f pt m idx i st) f = Some (r_data (process_one client f pt m idx i st))"
  by (simp add: process_one_def Let_def split: prod.splits)

lemma process_loop_submitted:
  "submitted (r_log (process_loop client f pt m idx pend st)) = submitted (r_log st) @ pend"
  by (induction pend arbitrary: idx st) (simp_all add: process_one_log submitted_append)

lemma process_one_calls:
  "r_calls (process_one client f pt m idx i st) =
     r_calls st @ [(idx, m, replace_text (c_text (j_chunks (r_data st) ! i)) pt)]"
  by (simp add: process_one_def process_chunk_def Let_def split: prod.splits)

lemma process_one_text:
  "c_text (j_chunks (r_data (process_one client f pt m idx i st)) ! j) =
     c_text (j_chunks (r_data st) ! j)"
proof -
  let ?cs = "j_chunks (r_data st)"
  obtain result error requests where pc:
    "process_chunk client idx (c_text (?cs ! i)) pt m = ((result, error), requests)"
    by (metis prod.exhaust)
  define c' where "c' = (if truthy result
      then (?cs ! i)\<lparr>c_status := ''done'', c_result := result, c_error := None\<rparr>
      else (?cs ! i)\<lparr>c_status := ''error'', c_error := error\<rparr>)"
  have upd: "j_chunks (r_data (process_one client f pt m idx i st)) = ?cs[i := c']"
    by (simp add: process_one_def Let_def pc c'_def)
  have same: "c_text c' = c_text (?cs ! i)" by (simp add: c'_def)
  show ?thesis
  proof (cases "j = i \<and> i < length ?cs")
    case True
    then show ?thesis by (simp add: upd same)
  next
    case False
    then consider "j \<noteq> i" | "length ?cs \<le> i" by linarith
    then show ?thesis
    proof cases
      case 1
      then show ?thesis by (simp add: upd)
    next
      case 2
      then show ?thesis by (simp add: upd list_update_beyond)
    qed
  qed
qed

lemma process_loop_calls:
  "r_calls (process_loop client f pt m idx pend st) =
     r_calls st @ expected_calls (r_data st) pt m idx pend"
proof (induction pend arbitrary: idx st)
  case Nil
  show ?case by (simp add: expected_calls_def)
next
  case (Cons i pend)
  let ?st = "process_one client f pt m idx i st"
  have "expected_calls (r_data ?st) pt m (Suc idx) pend = expected_calls (r_data st) pt m (Suc idx) pend"
    by (simp add: expected_calls_def process_one_text)
  with Cons [of "Suc idx" ?st] show ?case
    by (simp add: process_one_calls expected_calls_def)
qed

lemma process_one_inv:
  assumes "done_has_result (r_data st)"
  shows "done_has_result (r_data (process_one client f pt m idx i st))"
proof -
  let ?cs = "j_chunks (r_data st)"
  obtain result error requests where pc:
    "process_chunk client idx (c_text (?cs ! i)) pt m = ((result, error), requests)"
    by (metis prod.exhaust)
  define c' where "c' = (if truthy result
      then (?cs ! i)\<lparr>c_status := ''done'', c_result := result, c_error := None\<rparr>
      else (?cs ! i)\<lparr>c_status := ''error'', c_error := error\<rparr>)"
  have c': "j_chunks (r_data (process_one client f pt m idx i st)) = ?cs[i := c']"
    "c_status c' = ''done'' \<longrightarrow> (\<exists>r. c_result c' = Some r \<and> r \<noteq> [])"
    by (auto simp: process_one_def Let_def pc c'_def truthy_def split: option.splits)
  have "set (?cs[i := c']) \<subseteq> insert c' (set ?cs)" by (rule set_update_subset_insert)
  with assms c' show ?thesis by (auto simp: done_has_result_def)
qed

lemma process_loop_inv:
  assumes "done_has_result (r_data st)" "\<forall>g d. Save g d \<in> set (r_log st) \<longrightarrow> done_has_result d"
    "r_files st f = Some (r_data st)"
  shows "done_has_result (r_data (process_loop client f pt m idx pend st)) \<and>
         (\<forall>g d. Save g d \<in> set (r_log (process_loop client f pt m idx pend st)) \<longrightarrow> done_has_result d) \<and>
         r_files (process_loop client f pt m idx pend st) f = Some (r_data (process_loop client f pt m idx pend st))"
  using assms
proof (induction pend arbitrary: idx st)
  case Nil
  then show ?case by simp
next
  case (Cons i pend)
  let ?st = "process_one client f pt m idx i st"
  have 1: "done_has_result (r_data ?st)" using Cons.prems(1) by (rule process_one_inv)
  have 2: "\<forall>g d. Save g d \<in> set (r_log ?st) \<longrightarrow> done_has_result d"
    using Cons.prems(2) 1 by (auto simp: process_one_log)
  have 3: "r_files ?st f = Some (r_data ?st)" by (rule process_one_files)
  from Cons.IH [OF 1 2 3] show ?case by simp
qed

subsection \<open>Evaluating the example runs\<close>

lemmas run_defs = process_chunks_def process_one_def process_chunk_def Let_def truthy_def
  env0_def echo_client_def failing_client_def job_mixed_def job_done_def job_new_def make_data_def
  update_def tracker_init_def get_summary_def run0_def

lemma mixed_run:
  "process_chunks env0 echo_client [''job.json'' \<mapsto> job_mixed] ''job.json'' ''Fix: {text}'' ''m''
     = Inr \<lparr>exit_code = 0, out_files = [''job.json'' \<mapsto> job_mixed_after],
            out_log = [Submit 1 ''x'', Save ''job.json'' job_mixed_after],
            out_calls = [(0, ''m'', ''Fix: x'')],
            out_msgs = [Found 3 1 2, Summary 3 3 0 []]\<rparr>"
  by (simp add: run_defs job_mixed_after_def)

subsection \<open>The claims about \<open>process_chunks\<close>\<close>

text \<open>
  Claim C2. A processing run (the key is configured, the job file is there) attempts
  exactly the chunks whose status is not \<open>done\<close>, pending and failed ones alike,
  each once and in ascending index order, so a chunk already done is never resubmitted.
  The service receives exactly one request for each attempted chunk, in that order: the
  \<open>k\<close>-th request carries the model and the prompt made from the text of the
  \<open>k\<close>-th attempted chunk. When every chunk is done the run returns 0 at once,
  reports that all chunks are processed, makes no request and does not write the file.
\<close>

theorem process_attempts_not_done:
  assumes "truthy (openai_key ev)" "fs json_file = Some data"
  shows "\<exists>out. process_chunks ev client fs json_file prompt_template model = Inr out \<and>
           sorted_wrt (<) (submitted (out_log out)) \<and>
           set (submitted (out_log out)) =
             {i. i < length (j_chunks data) \<and> c_status (j_chunks data ! i) \<noteq> ''done''} \<and>
           out_calls out =
             expected_calls data prompt_template model 0 (submitted (out_log out)) \<and>
           length (out_calls out) = length (submitted (out_log out)) \<and>
           ((\<forall>c\<in>set (j_chunks data). c_status c = ''done'') \<longrightarrow>
              exit_code out = 0 \<and> out_log out = [] \<and> out_calls out = [] \<and> out_files out = fs \<and>
              AllProcessed \<in> set (out_msgs out))"
proof -
  obtain pend dc where sc: "scan (j_chunks data) 0 [] 0 = (pend, dc)"
    by (cases "scan (j_chunks data) 0 [] 0")
  then have pend: "pend = fst (scan (j_chunks data) 0 [] 0)" by simp
  have srt: "sorted_wrt (<) pend" unfolding pend by (rule scan_sorted)
  have st: "set pend = {i. i < length (j_chunks data) \<and> c_status (j_chunks data ! i) \<noteq> ''done''}"
    unfolding pend by (rule scan_set)
  have emp: "(pend = []) = (\<forall>c\<in>set (j_chunks data). c_status c = ''done'')"
    unfolding pend by (rule scan_empty)
  have len: "length (expected_calls data prompt_template model 0 pend) = length pend"
    by (simp add: expected_calls_def)
  show ?thesis
  proof (cases "pend = []")
    case True
    with assms sc st show ?thesis
      by (simp add: process_chunks_def expected_calls_def)
  next
    case False
    with emp have ne: "\<not> (\<forall>c\<in>set (j_chunks data). c_status c = ''done'')" by simp
    from False assms sc
    obtain out where out: "process_chunks ev client fs json_file prompt_template model = Inr out"
      "submitted (out_log out) = pend"
      "out_calls out = expected_calls data prompt_template model 0 pend"
      by (simp add: process_chunks_def Let_def process_loop_submitted process_loop_calls)
    with srt st ne len show ?thesis by auto
  qed
qed

theorem process_attempts_not_done_witness:
  "truthy (openai_key env0) \<and>
   [''job.json'' \<mapsto> job_mixed] ''job.json'' = Some job_mixed \<and>
   (\<exists>out. process_chunks env0 echo_client [''job.json'' \<mapsto> job_mixed] ''job.json''
             ''Fix: {text}'' ''m'' = Inr out \<and>
          submitted (out_log out) = [1] \<and>
          sorted_wrt (<) (submitted (out_log out)) \<and> set (submitted (out_log out)) = {1} \<and>
          out_calls out = [(0, ''m'', ''Fix: x'')]) \<and>
   [''job.json'' \<mapsto> job_done] ''job.json'' = Some job_done \<and>
   (\<exists>out. process_chunks env0 echo_client [''job.json'' \<mapsto> job_done] ''job.json''
             ''Fix: {text}'' ''m'' = Inr out \<and>
          exit_code out = 0 \<and> out_log out = [] \<and> out_calls out = [] \<and>
          out_files out = [''job.json'' \<mapsto> job_done] \<and>
          AllProcessed \<in> set (out_msgs out))"
proof -
  have k: "truthy (openai_key env0)" by (simp add: env0_def truthy_def)
  have f1: "[''job.json'' \<mapsto> job_mixed] ''job.json'' = Some job_mixed" by simp
  have f2: "[''job.json'' \<mapsto> job_done] ''job.json'' = Some job_done" by simp
  have s: "{i. i < length (j_chunks job_mixed) \<and> c_status (j_chunks job_mixed ! i) \<noteq> ''done''} = {1}"
    by (auto simp: job_mixed_def less_Suc_eq numeral_3_eq_3)
  have d: "\<forall>c\<in>set (j_chunks job_done). c_status c = ''done''" by (simp add: job_done_def)
  from process_attempts_not_done [where fs = "[''job.json'' \<mapsto> job_mixed]" and
      json_file = "''job.json''" and client = echo_client and prompt_template = "''Fix: {text}''"
      and model = "''m''", OF k f1]
  obtain out where out:
    "process_chunks env0 echo_client [''job.json'' \<mapsto> job_mixed] ''job.json''
       ''Fix: {text}'' ''m'' = Inr out"
    "sorted_wrt (<) (submitted (out_log out))"
    "set (submitted (out_log out)) = {1}"
    "out_calls out = expected_calls job_mixed ''Fix: {text}'' ''m'' 0 (submitted (out_log out))"
    "length (out_calls out) = length (submitted (out_log out))"
    unfolding s by blast
  have sub: "submitted (out_log out) = [1]"
  proof -
    from out(2) have "distinct (submitted (out_log out))"
      by (simp add: strict_sorted_iff)
    with out(3) have "length (submitted (out_log out)) = 1"
      by (metis One_nat_def card.empty card_insert_disjoint distinct_card empty_iff finite.emptyI)
    with out(3) show ?thesis
      by (cases "submitted (out_log out)") auto
  qed
  have calls: "out_calls out = [(0, ''m'', ''Fix: x'')]"
    unfolding out(4) sub by (simp add: expected_calls_def job_mixed_def)
  from out(1,2,3) sub calls
  have 1: "\<exists>out. process_chunks env0 echo_client [''job.json'' \<mapsto> job_mixed] ''job.json''
             ''Fix: {text}'' ''m'' = Inr out \<and>
          submitted (out_log out) = [1] \<and>
          sorted_wrt (<) (submitted (out_log out)) \<and> set (submitted (out_log out)) = {1} \<and>
          out_calls out = [(0, ''m'', ''Fix: x'')]"
    by blast
  from process_attempts_not_done [where fs = "[''job.json'' \<mapsto> job_done]" and
      json_file = "''job.json''" and client = echo_client and prompt_template = "''Fix: {text}''"
      and model = "''m''", OF k f2] d
  have 2: "\<exists>out. process_chunks env0 echo_client [''job.json'' \<mapsto> job_done] ''job.json''
             ''Fix: {text}'' ''m'' = Inr out \<and>
          exit_code out = 0 \<and> out_log out = [] \<and> out_calls out = [] \<and>
          out_files out = [''job.json'' \<mapsto> job_done] \<and>
          AllProcessed \<in> set (out_msgs out)"
    by blast
  from k f1 1 f2 2 show ?thesis by blast
qed

text \<open>
  Claim C4, as the specification states it, fails: a call that succeeds with an empty
  output does not mark the segment done. The code tests the truth value of the result
  (\<open>if result:\<close>), so the segment is marked \<open>error\<close>, with a null error detail.
\<close>

theorem process_one_empty_output:
  "empty_client 0 ''m'' (replace_text ''Hello '' ''Fix: {text}'') = Inr (Some []) \<and>
   j_chunks (r_data (process_one empty_client ''job.json'' ''Fix: {text}'' ''m'' 0 0 (run0 job_new))) ! 0
     = \<lparr>c_index = 0, c_text = ''Hello '', c_status = ''error'', c_result = None, c_error = None\<rparr>"
  by (simp add: run_defs empty_client_def)

text \<open>
  Claim C4, amended. In one iteration of the processing loop on a chunk of the job: when
  the service returns a non-empty output the chunk's status becomes \<open>done\<close>, its result
  the output and its error is cleared; when the call fails the status becomes
  \<open>error\<close>, the error the failure's text, and the result stays as it was. No other
  chunk changes. In both cases the whole job is written to its file at once, as the last
  event of the iteration, and the next chunk is attempted from that state.
\<close>

theorem process_one_outcome:
  assumes "chunk_index < length (j_chunks (r_data st))"
  shows "let c = j_chunks (r_data st) ! chunk_index;
             reply = client idx model (replace_text (c_text c) prompt_template);
             st' = process_one client json_file prompt_template model idx chunk_index st;
             c' = j_chunks (r_data st') ! chunk_index
         in (\<forall>out. reply = Inr (Some out) \<and> out \<noteq> [] \<longrightarrow>
               c' = c\<lparr>c_status := ''done'', c_result := Some out, c_error := None\<rparr>) \<and>
            (\<forall>e. reply = Inl e \<longrightarrow>
               c' = c\<lparr>c_status := ''error'', c_error := Some e\<rparr> \<and> c_result c' = c_result c) \<and>
            length (j_chunks (r_data st')) = length (j_chunks (r_data st)) \<and>
            (\<forall>j. j \<noteq> chunk_index \<longrightarrow> j_chunks (r_data st') ! j = j_chunks (r_data st) ! j) \<and>
            r_files st' json_file = Some (r_data st') \<and>
            r_log st' = r_log st @ [Submit chunk_index (c_text c), Save json_file (r_data st')] \<and>
            process_loop client json_file prompt_template model idx (chunk_index # rest) st =
              process_loop client json_file prompt_template model (Suc idx) rest st'"
  using assms
  by (auto simp: Let_def process_one_def process_chunk_def truthy_def split: sum.splits option.splits)

theorem process_one_outcome_witness:
  "0 < length (j_chunks (r_data (run0 job_new))) \<and>
   echo_client 0 ''m'' (replace_text ''Hello '' ''Fix: {text}'') = Inr (Some ''Fix: Hello '') \<and>
   ''Fix: Hello '' \<noteq> [] \<and>
   j_chunks (r_data (process_one echo_client ''job.json'' ''Fix: {text}'' ''m'' 0 0 (run0 job_new))) ! 0
     = \<lparr>c_index = 0, c_text = ''Hello '', c_status = ''done'', c_result = Some ''Fix: Hello '',
        c_error = None\<rparr> \<and>
   failing_client 0 ''m'' (replace_text ''Hello '' ''Fix: {text}'') = Inl ''timeout'' \<and>
   j_chunks (r_data (process_one failing_client ''job.json'' ''Fix: {text}'' ''m'' 0 0 (run0 job_new))) ! 0
     = \<lparr>c_index = 0, c_text = ''Hello '', c_status = ''error'', c_result = None,
        c_error = Some ''timeout''\<rparr> \<and>
   j_chunks (r_data (process_one failing_client ''job.json'' ''Fix: {text}'' ''m'' 0 0 (run0 job_new))) ! 1
     = j_chunks (r_data (run0 job_new)) ! 1"
proof -
  have n: "0 < length (j_chunks (r_data (run0 job_new)))"
    by (simp add: run0_def job_new_def make_data_def)
  have c: "j_chunks (r_data (run0 job_new)) ! 0
     = \<lparr>c_index = 0, c_text = ''Hello '', c_status = ''pending'', c_result = None, c_error = None\<rparr>"
    by (simp add: run0_def job_new_def make_data_def)
  have e: "echo_client 0 ''m'' (replace_text ''Hello '' ''Fix: {text}'') = Inr (Some ''Fix: Hello '')"
    by (simp add: echo_client_def)
  have f: "failing_client 0 ''m'' (replace_text ''Hello '' ''Fix: {text}'') = Inl ''timeout''"
    by (simp add: failing_client_def)
  have 1: "j_chunks (r_data (process_one echo_client ''job.json'' ''Fix: {text}'' ''m'' 0 0 (run0 job_new))) ! 0
     = \<lparr>c_index = 0, c_text = ''Hello '', c_status = ''done'', c_result = Some ''Fix: Hello '',
        c_error = None\<rparr>"
    using process_one_outcome [OF n, of echo_client 0 "''m''" "''Fix: {text}''" "''job.json''" "[]"] e
    by (simp add: Let_def c)
  have 2: "j_chunks (r_data (process_one failing_client ''job.json'' ''Fix: {text}'' ''m'' 0 0 (run0 job_new))) ! 0
     = \<lparr>c_index = 0, c_text = ''Hello '', c_status = ''error'', c_result = None,
        c_error = Some ''timeout''\<rparr> \<and>
   j_chunks (r_data (process_one failing_client ''job.json'' ''Fix: {text}'' ''m'' 0 0 (run0 job_new))) ! 1
     = j_chunks (r_data (run0 job_new)) ! 1"
    using process_one_outcome [OF n, of failing_client 0 "''m''" "''Fix: {text}''" "''job.json''" "[]"] f
    by (simp add: Let_def c)
  from n e f 1 2 show ?thesis by simp
qed

text \<open>
  Claim C10. A processing run preserves the invariant that every chunk marked done has
  a non-empty result: if the job on disk satisfies it before the run, so does the job on
  disk after the run, and so does every state of the job the run writes.
\<close>

theorem process_preserves_done_has_result:
  assumes "truthy (openai_key ev)" "fs json_file = Some data" "done_has_result data"
  shows "\<exists>out. process_chunks ev client fs json_file prompt_template model = Inr out \<and>
           (\<exists>data'. out_files out json_file = Some data' \<and> done_has_result data') \<and>
           (\<forall>g d. Save g d \<in> set (out_log out) \<longrightarrow> done_has_result d)"
proof -
  obtain pend dc where sc: "scan (j_chunks data) 0 [] 0 = (pend, dc)"
    by (cases "scan (j_chunks data) 0 [] 0")
  show ?thesis
  proof (cases "pend = []")
    case True
    with assms sc show ?thesis by (simp add: process_chunks_def)
  next
    case False
    let ?st0 = "\<lparr>r_data = data,
       r_tracker = (tracker_init (length (j_chunks data)))\<lparr>t_success := dc\<rparr>,
       r_files = fs, r_log = [], r_calls = []\<rparr>"
    have "done_has_result (r_data ?st0)" "\<forall>g d. Save g d \<in> set (r_log ?st0) \<longrightarrow> done_has_result d"
      "r_files ?st0 json_file = Some (r_data ?st0)"
      using assms by simp_all
    from process_loop_inv [OF this, of client prompt_template model 0 pend]
    show ?thesis using False assms sc by (simp add: process_chunks_def Let_def)
  qed
qed

theorem process_preserves_done_has_result_witness:
  "truthy (openai_key env0) \<and>
   [''job.json'' \<mapsto> job_mixed] ''job.json'' = Some job_mixed \<and>
   done_has_result job_mixed \<and>
   (\<exists>out. process_chunks env0 echo_client [''job.json'' \<mapsto> job_mixed] ''job.json''
             ''Fix: {text}'' ''m'' = Inr out \<and>
          out_files out ''job.json'' = Some job_mixed_after \<and>
          Save ''job.json'' job_mixed_after \<in> set (out_log out)) \<and>
   done_has_result job_mixed_after"
proof -
  have k: "truthy (openai_key env0)" by (simp add: env0_def truthy_def)
  have f1: "[''job.json'' \<mapsto> job_mixed] ''job.json'' = Some job_mixed" by simp
  have i: "done_has_result job_mixed" by (simp add: done_has_result_def job_mixed_def)
  from process_preserves_done_has_result [where fs = "[''job.json'' \<mapsto> job_mixed]" and
      json_file = "''job.json''" and client = echo_client and prompt_template = "''Fix: {text}''" and model = "''m''", OF k f1 i]
  obtain out where out: "process_chunks env0 echo_client [''job.json'' \<mapsto> job_mixed] ''job.json''
             ''Fix: {text}'' ''m'' = Inr out"
    "\<forall>g d. Save g d \<in> set (out_log out) \<longrightarrow> done_has_result d" by blast
  from out(1) have l: "out_files out ''job.json'' = Some job_mixed_after"
    "Save ''job.json'' job_mixed_after \<in> set (out_log out)"
    by (auto simp: mixed_run)
  with out(2) have "done_has_result job_mixed_after" by blast
  with k f1 i out(1) l show ?thesis by blast
qed

section \<open>Properties of the rebuild\<close>

lemma collect_eq:
  "collect cs d e p =
     (d @ filter (\<lambda>c. c_status c = ''done'') cs,
      e @ map c_index (filter (\<lambda>c. c_status c = ''error'') cs),
      p @ map c_index (filter (\<lambda>c. c_status c \<noteq> ''done'' \<and> c_status c \<noteq> ''error'') cs))"
  by (induction cs arbitrary: d e p) auto

lemma rebuild_text_eq: "rebuild_text cs acc = acc @ concat (map result_text cs)"
  by (induction cs arbitrary: acc) (auto simp: result_text_def split: option.splits)

text \<open>
  Claim C5. On a job that is there, the rebuild fails, with status 1 and the line that
  nothing is to be rebuilt, exactly when no chunk is done; otherwise it returns 0 and
  writes the concatenation of the results of the done chunks, sorted by index (a
  permutation of the done chunks in ascending index order). In both cases it prints the
  counts of done, failed and pending chunks, and the indices of the failed and of the
  pending ones when there are any.
\<close>

theorem rebuild_chunks_correct:
  assumes "fs json_file = Some data"
  shows "\<exists>out. rebuild_chunks fs json_file = Inr out \<and>
     (let cs = j_chunks data;
          ds = filter (\<lambda>c. c_status c = ''done'') cs;
          es = map c_index (filter (\<lambda>c. c_status c = ''error'') cs);
          ps = map c_index (filter (\<lambda>c. c_status c \<noteq> ''done'' \<and> c_status c \<noteq> ''error'') cs);
          sorted_ds = sort_key c_index ds
      in (NothingToRebuild \<in> set (rb_msgs out)) = (\<forall>c\<in>set cs. c_status c \<noteq> ''done'') \<and>
         (rb_exit out = 1) = (\<forall>c\<in>set cs. c_status c \<noteq> ''done'') \<and>
         (rb_exit out = 0) = (\<exists>c\<in>set cs. c_status c = ''done'') \<and>
         rb_written out =
           (if \<exists>c\<in>set cs. c_status c = ''done''
            then Some (concat (map result_text sorted_ds)) else None) \<and>
         sorted (map c_index sorted_ds) \<and> mset sorted_ds = mset ds \<and>
         Statistics (length cs) (length ds) (length es) (length ps) \<in> set (rb_msgs out) \<and>
         (es \<noteq> [] \<longrightarrow> WarnErrors (length es) es \<in> set (rb_msgs out)) \<and>
         (ps \<noteq> [] \<longrightarrow> WarnPending (length ps) ps \<in> set (rb_msgs out)))"
proof -
  have e: "(filter (\<lambda>c. c_status c = ''done'') (j_chunks data) = []) =
           (\<forall>c\<in>set (j_chunks data). c_status c \<noteq> ''done'')"
    by (simp add: filter_empty_conv)
  show ?thesis
  proof (cases "\<forall>c\<in>set (j_chunks data). c_status c \<noteq> ''done''")
    case True
    with e have "filter (\<lambda>c. c_status c = ''done'') (j_chunks data) = []" by simp
    with True assms show ?thesis
      by (simp add: rebuild_chunks_def collect_eq Let_def)
  next
    case False
    with e have "filter (\<lambda>c. c_status c = ''done'') (j_chunks data) \<noteq> []" by simp
    with False assms show ?thesis
      by (simp add: rebuild_chunks_def collect_eq Let_def rebuild_text_eq)
  qed
qed

theorem rebuild_chunks_correct_witness:
  "[''job.json'' \<mapsto> job_mixed] ''job.json'' = Some job_mixed \<and>
   (\<exists>out. rebuild_chunks [''job.json'' \<mapsto> job_mixed] ''job.json'' = Inr out \<and>
      rb_exit out = 0 \<and> rb_written out = Some ''AB'' \<and>
      NothingToRebuild \<notin> set (rb_msgs out) \<and>
      Statistics 3 2 1 0 \<in> set (rb_msgs out) \<and> WarnErrors 1 [1] \<in> set (rb_msgs out)) \<and>
   [''job.json'' \<mapsto> job_new] ''job.json'' = Some job_new \<and>
   (\<exists>out. rebuild_chunks [''job.json'' \<mapsto> job_new] ''job.json'' = Inr out \<and>
      rb_exit out = 1 \<and> rb_written out = None \<and> NothingToRebuild \<in> set (rb_msgs out) \<and>
      WarnPending 2 [0, 1] \<in> set (rb_msgs out))"
proof -
  have f1: "[''job.json'' \<mapsto> job_mixed] ''job.json'' = Some job_mixed" by simp
  have f2: "[''job.json'' \<mapsto> job_new] ''job.json'' = Some job_new" by simp
  from rebuild_chunks_correct [where fs = "[''job.json'' \<mapsto> job_mixed]" and
      json_file = "''job.json''", OF f1]
  have 1: "\<exists>out. rebuild_chunks [''job.json'' \<mapsto> job_mixed] ''job.json'' = Inr out \<and>
      rb_exit out = 0 \<and> rb_written out = Some ''AB'' \<and>
      NothingToRebuild \<notin> set (rb_msgs out) \<and>
      Statistics 3 2 1 0 \<in> set (rb_msgs out) \<and> WarnErrors 1 [1] \<in> set (rb_msgs out)"
    by (auto simp: Let_def job_mixed_def result_text_def sort_key_def numeral_2_eq_2 numeral_3_eq_3)
  from rebuild_chunks_correct [where fs = "[''job.json'' \<mapsto> job_new]" and
      json_file = "''job.json''", OF f2]
  have 2: "\<exists>out. rebuild_chunks [''job.json'' \<mapsto> job_new] ''job.json'' = Inr out \<and>
      rb_exit out = 1 \<and> rb_written out = None \<and> NothingToRebuild \<in> set (rb_msgs out) \<and>
      WarnPending 2 [0, 1] \<in> set (rb_msgs out)"
    by (auto simp: Let_def job_new_def make_data_def numeral_2_eq_2)
  from f1 1 f2 2 show ?thesis by blast
qed

section \<open>Exit status\<close>

text \<open>
  Claim C9, as the specification states it, fails: the entry points know only the
  statuses 0 and 1. \<open>process.py\<close> returns 0 when nothing is pending and 0 after a run;
  \<open>rebuild.py\<close> returns 1 when the job file is missing and 1 when no chunk is done.
\<close>

theorem exit_status_not_distinct:
  "process_exit (process_main env0 echo_client [''job.json'' \<mapsto> job_done] ''job.json''
       ''Fix: {text}'' ''m'') = Some 0 \<and>
   process_msgs (process_main env0 echo_client [''job.json'' \<mapsto> job_done] ''job.json''
       ''Fix: {text}'' ''m'') = [Found 1 0 1, AllProcessed] \<and>
   process_exit (process_main env0 echo_client [''job.json'' \<mapsto> job_new] ''job.json''
       ''Fix: {text}'' ''m'') = Some 0 \<and>
   process_msgs (process_main env0 echo_client [''job.json'' \<mapsto> job_new] ''job.json''
       ''Fix: {text}'' ''m'') = [Found 2 2 0, Summary 2 2 0 []] \<and>
   rebuild_exit (rebuild_main Map.empty ''job.json'') = Some 1 \<and>
   rebuild_msgs (rebuild_main Map.empty ''job.json'') = [ErrNotFound ''job.json''] \<and>
   rebuild_exit (rebuild_main [''job.json'' \<mapsto> job_new] ''job.json'') = Some 1 \<and>
   rebuild_msgs (rebuild_main [''job.json'' \<mapsto> job_new] ''job.json'')
     = [Statistics 2 0 0 2, WarnPending 2 [0, 1], NothingToRebuild]"
  by (simp add: process_exit_def rebuild_exit_def process_msgs_def rebuild_msgs_def
      process_main_def rebuild_main_def rebuild_chunks_def run_defs)

text \<open>
  Claim C9, amended. The exit status of \<open>process.py\<close> and of \<open>rebuild.py\<close> is 0
  or 1. Both return 1 when the job file is not found, and 0 on success, so these two are
  told apart. \<open>process.py\<close> returns 0 as well when nothing is pending (and 1 when the
  key is missing); \<open>rebuild.py\<close> returns 1 as well when no chunk is done.
\<close>

theorem exit_status_two_valued:
  "(\<exists>out. process_main ev client fs json_file prompt model_arg = Inr out \<and>
      exit_code out = (if fs json_file \<noteq> None \<and> truthy (openai_key ev) then 0 else 1)) \<and>
   (\<exists>out. rebuild_main fs json_file = Inr out \<and>
      rb_exit out =
        (case fs json_file of
           None \<Rightarrow> 1
         | Some data \<Rightarrow>
             if filter (\<lambda>c. c_status c = ''done'') (j_chunks data) = [] then 1 else 0))"
proof
  show "\<exists>out. process_main ev client fs json_file prompt model_arg = Inr out \<and>
      exit_code out = (if fs json_file \<noteq> None \<and> truthy (openai_key ev) then 0 else 1)"
  proof (cases "fs json_file")
    case None
    then show ?thesis by (simp add: process_main_def)
  next
    case (Some data)
    obtain pend dc where sc: "scan (j_chunks data) 0 [] 0 = (pend, dc)"
      by (cases "scan (j_chunks data) 0 [] 0")
    with Some show ?thesis
      by (simp add: process_main_def process_chunks_def Let_def)
  qed
  show "\<exists>out. rebuild_main fs json_file = Inr out \<and>
      rb_exit out =
        (case fs json_file of
           None \<Rightarrow> 1
         | Some data \<Rightarrow>
             if filter (\<lambda>c. c_status c = ''done'') (j_chunks data) = [] then 1 else 0)"
    by (cases "fs json_file") (simp_all add: rebuild_main_def rebuild_chunks_def collect_eq Let_def)
qed

theorem exit_status_two_valued_witness:
  "(\<exists>out. process_main env0 echo_client [''job.json'' \<mapsto> job_mixed] ''job.json''
            ''Fix: {text}'' ''m'' = Inr out \<and> exit_code out = 0) \<and>
   (\<exists>out. rebuild_main [''job.json'' \<mapsto> job_mixed] ''job.json'' = Inr out \<and> rb_exit out = 0) \<and>
   (\<exists>out. process_main env0 echo_client Map.empty ''job.json''
            ''Fix: {text}'' ''m'' = Inr out \<and> exit_code out = 1) \<and>
   (\<exists>out. rebuild_main Map.empty ''job.json'' = Inr out \<and> rb_exit out = 1)"
proof -
  have k: "truthy (openai_key env0)" by (simp add: env0_def truthy_def)
  have d: "filter (\<lambda>c. c_status c = ''done'') (j_chunks job_mixed) \<noteq> []"
    by (simp add: job_mixed_def)
  from exit_status_two_valued [of env0 echo_client "[''job.json'' \<mapsto> job_mixed]"
      "''job.json''" "''Fix: {text}''" "''m''"] k d
  have 1: "(\<exists>out. process_main env0 echo_client [''job.json'' \<mapsto> job_mixed] ''job.json''
            ''Fix: {text}'' ''m'' = Inr out \<and> exit_code out = 0) \<and>
   (\<exists>out. rebuild_main [''job.json'' \<mapsto> job_mixed] ''job.json'' = Inr out \<and> rb_exit out = 0)"
    by simp
  from exit_status_two_valued [of env0 echo_client Map.empty
      "''job.json''" "''Fix: {text}''" "''m''"]
  have 2: "(\<exists>out. process_main env0 echo_client Map.empty ''job.json''
            ''Fix: {text}'' ''m'' = Inr out \<and> exit_code out = 1) \<and>
   (\<exists>out. rebuild_main Map.empty ''job.json'' = Inr out \<and> rb_exit out = 1)"
    by simp
  from 1 2 show ?thesis by blast
qed

end
